theory Spec2Isabelle
  imports Complex_Main "HOL-Library.Word" "HOL-Library.Log_Nat"
begin

section \<open>The image buffer\<close>

text \<open>
  A pixel of an RGBA image is the 4-tuple \<open>(r, g, b, a)\<close> that \<^verbatim>\<open>getpixel\<close> returns;
  every channel is an 8-bit unsigned value. The buffer has a width, a height and one
  pixel for every coordinate pair; only the pixels with \<open>0 \<le> x < width\<close> and
  \<open>0 \<le> y < height\<close> can be read or written.
\<close>

type_synonym pixel = "8 word \<times> 8 word \<times> 8 word \<times> 8 word"

record image =
  width :: int
  height :: int
  pixels :: "int \<times> int \<Rightarrow> pixel"

text \<open>
  The exceptions that \<^verbatim>\<open>make_icon_transparent\<close> can raise on arguments of the documented
  types: a pixel access outside the buffer, the division of line 95, \<^verbatim>\<open>int\<close> of a product
  that has overflowed to an infinity (line 34), a \<^verbatim>\<open>print\<close> on a console whose encoding
  lacks the characters of the messages, and the failures of \<^verbatim>\<open>Image.open\<close> and
  \<^verbatim>\<open>save\<close>.
\<close>

datatype error =
  IndexError | ZeroDivisionError | OverflowError | UnicodeEncodeError | OpenError | SaveError

definition inside :: "image \<Rightarrow> int \<times> int \<Rightarrow> bool" where
  "inside img xy = (case xy of (x, y) \<Rightarrow> 0 \<le> x \<and> x < width img \<and> 0 \<le> y \<and> y < height img)"

text \<open>
  \<^verbatim>\<open>getpixel\<close> and \<^verbatim>\<open>putpixel\<close> raise \<^verbatim>\<open>IndexError\<close> outside the buffer. Every call
  of the source passes \<open>x \<ge> 0\<close> and \<open>y \<ge> 0\<close> (the lower bounds of the loops are
  clamped with \<^verbatim>\<open>max(0, ...)\<close>).
\<close>

definition getpixel :: "image \<Rightarrow> int \<times> int \<Rightarrow> error + pixel" where
  "getpixel img xy = (if inside img xy then Inr (pixels img xy) else Inl IndexError)"

definition putpixel :: "image \<Rightarrow> int \<times> int \<Rightarrow> pixel \<Rightarrow> error + image" where
  "putpixel img xy p =
     (if inside img xy then Inr (img\<lparr>pixels := (pixels img)(xy := p)\<rparr>) else Inl IndexError)"

section \<open>The corner regions\<close>

text \<open>
  Line 34 computes \<^verbatim>\<open>int(width * corner_ratio)\<close> in double precision. The ratio is a finite
  Python float, given by the rational number it denotes. The product of two floats is the
  exact product rounded to the nearest double, the one with an even significand when two
  are equally near.

  \<open>round_even\<close> rounds to the nearest integer, an even one at a tie.
  \<open>binary_exponent a\<close> is the \<open>e\<close> with \<open>2 ^ e \<le> a < 2 ^ (e + 1)\<close>, for \<open>a > 0\<close>. A double has a
  significand of 53 bits and an exponent of at least \<open>- 1074\<close> for its last bit.
\<close>

definition round_even :: "rat \<Rightarrow> int" where
  "round_even x =
     (let f = \<lfloor>x\<rfloor>; d = x - of_int f
      in if d < 1 / 2 then f else if 1 / 2 < d then f + 1 else if even f then f else f + 1)"

definition binary_exponent :: "rat \<Rightarrow> int" where
  "binary_exponent a =
     (case quotient_of a of (p, n) \<Rightarrow>
        let k = bitlen p - bitlen n
        in if 2 powi k * of_int n \<le> (of_int p :: rat) then k else k - 1)"

definition double_round :: "rat \<Rightarrow> rat" where
  "double_round q =
     (if q = 0 then 0
      else let s = max (binary_exponent \<bar>q\<bar> - 52) (- 1074)
           in sgn q * of_int (round_even (\<bar>q\<bar> / 2 powi s)) * 2 powi s)"

text \<open>
  The product \<^verbatim>\<open>width * corner_ratio\<close>. The width of an image is a C \<^verbatim>\<open>int\<close> of the imaging
  library, so it is below \<open>2 ^ 31\<close> and its conversion to a float is exact. The model rounds
  the product for every width below \<open>2 ^ 53\<close>; for the other integers, which are the width
  of no image, it takes the exact product.
\<close>

definition float_product :: "int \<Rightarrow> rat \<Rightarrow> rat" where
  "float_product w corner_ratio =
     (if \<bar>w\<bar> < 2 ^ 53 then double_round (of_int w * corner_ratio)
      else of_int w * corner_ratio)"

text \<open>
  The product rounds to an infinity when it is at least half a unit in the last place
  above the largest double; \<^verbatim>\<open>int\<close> then raises \<^verbatim>\<open>OverflowError\<close>.
\<close>

definition product_overflows :: "int \<Rightarrow> rat \<Rightarrow> bool" where
  "product_overflows w corner_ratio = (2 ^ 1024 - 2 ^ 970 \<le> \<bar>of_int w * corner_ratio\<bar>)"

text \<open>\<^verbatim>\<open>int(x)\<close> truncates towards zero.\<close>

definition py_int :: "rat \<Rightarrow> int" where
  "py_int q = (if 0 \<le> q then \<lfloor>q\<rfloor> else \<lceil>q\<rceil>)"

definition corner_size :: "int \<Rightarrow> rat \<Rightarrow> int" where
  "corner_size w corner_ratio = py_int (float_product w corner_ratio)"

datatype corner_name = Top_Left | Top_Right | Bottom_Left | Bottom_Right

type_synonym region = "int \<times> int \<times> int \<times> corner_name"

text \<open>Lines 43 to 52: centre \<open>(x, y)\<close>, radius and name of each of the four regions.\<close>

definition corner_regions :: "int \<Rightarrow> int \<Rightarrow> int \<Rightarrow> region list" where
  "corner_regions w h cs =
     [(cs div 2, cs div 2, cs div 2, Top_Left),
      (w - cs div 2, cs div 2, cs div 2, Top_Right),
      (cs div 2, h - cs div 2, cs div 2, Bottom_Left),
      (w - cs div 2, h - cs div 2, cs div 2, Bottom_Right)]"

text \<open>
  Lines 74 and 77: \<^verbatim>\<open>math.sqrt((x - center_x) ** 2 + (y - center_y) ** 2) <= radius\<close>.
  The operands are integers, so the test is decided on the squares; lemma
  \<open>within_radius_sqrt\<close> below shows that this is the comparison of the square root.
\<close>

definition within_radius :: "int \<Rightarrow> int \<Rightarrow> int \<Rightarrow> int \<Rightarrow> int \<Rightarrow> bool" where
  "within_radius x y center_x center_y radius =
     (0 \<le> radius \<and> (x - center_x)\<^sup>2 + (y - center_y)\<^sup>2 \<le> radius\<^sup>2)"

section \<open>The classification of a pixel\<close>

text \<open>Lines 83 to 85: all three colour channels are at least \<open>255 - color_tolerance\<close>.\<close>

definition near_white :: "int \<Rightarrow> pixel \<Rightarrow> bool" where
  "near_white color_tolerance p =
     (case p of (r, g, b, a) \<Rightarrow>
        uint r \<ge> 255 - color_tolerance \<and>
        uint g \<ge> 255 - color_tolerance \<and>
        uint b \<ge> 255 - color_tolerance)"

text \<open>Line 87: the pixel written back, \<open>(r, g, b, 0)\<close>.\<close>

definition transparent :: "pixel \<Rightarrow> pixel" where
  "transparent p = (case p of (r, g, b, a) \<Rightarrow> (r, g, b, 0))"

definition alpha :: "pixel \<Rightarrow> 8 word" where
  "alpha p = (case p of (r, g, b, a) \<Rightarrow> a)"

section \<open>The loops\<close>

text \<open>
  The local variables that the loops update. \<open>region_lines\<close> collects what line 93
  prints for a region: its name, the two counts and the percentage.
\<close>

type_synonym region_line = "corner_name \<times> int \<times> int \<times> rat"

record loop_state =
  new_img :: image
  transparent_count :: int
  corner_transparent :: int
  corner_total :: int
  region_lines :: "region_line list"

text \<open>\<^verbatim>\<open>range(a, b)\<close>: the integers from \<open>a\<close> up to \<open>b - 1\<close>.\<close>

definition range_py :: "int \<Rightarrow> int \<Rightarrow> int list" where
  "range_py a b = [a..b - 1]"

text \<open>A \<^verbatim>\<open>for\<close> loop whose body can raise: the first exception ends the loop.\<close>

fun for_each :: "('a \<Rightarrow> 's \<Rightarrow> error + 's) \<Rightarrow> 'a list \<Rightarrow> 's \<Rightarrow> error + 's" where
  "for_each body [] s = Inr s"
| "for_each body (i # is) s =
     (case body i s of Inl e \<Rightarrow> Inl e | Inr s' \<Rightarrow> for_each body is s')"

text \<open>Lines 73 to 89, the body of the inner loop at the pixel \<open>(x, y)\<close>.\<close>

definition visit_pixel ::
  "int \<Rightarrow> int \<Rightarrow> int \<Rightarrow> int \<Rightarrow> int \<Rightarrow> int \<Rightarrow> loop_state \<Rightarrow> error + loop_state" where
  "visit_pixel center_x center_y radius color_tolerance y x s =
     (if within_radius x y center_x center_y radius then
        (let s1 = s\<lparr>corner_total := corner_total s + 1\<rparr> in
         case getpixel (new_img s1) (x, y) of
           Inl e \<Rightarrow> Inl e
         | Inr p \<Rightarrow>
             if near_white color_tolerance p then
               (case putpixel (new_img s1) (x, y) (transparent p) of
                  Inl e \<Rightarrow> Inl e
                | Inr im \<Rightarrow>
                    Inr (s1\<lparr>new_img := im,
                            transparent_count := transparent_count s1 + 1,
                            corner_transparent := corner_transparent s1 + 1\<rparr>))
             else Inr s1)
      else Inr s)"

text \<open>Lines 66 to 69: the bounding box \<open>(x1, y1, x2, y2)\<close> of a region, clipped to the image.\<close>

definition bounding_box :: "int \<Rightarrow> int \<Rightarrow> region \<Rightarrow> int \<times> int \<times> int \<times> int" where
  "bounding_box w h reg =
     (case reg of (center_x, center_y, radius, name) \<Rightarrow>
        (max 0 (center_x - radius), max 0 (center_y - radius),
         min w (center_x + radius), min h (center_y + radius)))"

text \<open>
  Lines 60 to 93, the body of the loop over the regions; \<open>w\<close> and \<open>h\<close> are the
  variables \<^verbatim>\<open>width\<close> and \<^verbatim>\<open>height\<close> of line 31.
\<close>

definition process_region ::
  "int \<Rightarrow> int \<Rightarrow> int \<Rightarrow> region \<Rightarrow> loop_state \<Rightarrow> error + loop_state" where
  "process_region w h color_tolerance reg s =
     (case reg of (center_x, center_y, radius, name) \<Rightarrow>
        (case bounding_box w h reg of (x1, y1, x2, y2) \<Rightarrow>
          (case for_each
                 (\<lambda>y. for_each (visit_pixel center_x center_y radius color_tolerance y)
                        (range_py x1 x2))
                 (range_py y1 y2) (s\<lparr>corner_transparent := 0, corner_total := 0\<rparr>) of
             Inl e \<Rightarrow> Inl e
           | Inr s' \<Rightarrow>
               if corner_total s' > 0 then
                 Inr (s'\<lparr>region_lines := region_lines s' @
                        [(name, corner_transparent s', corner_total s',
                          of_int (corner_transparent s') / of_int (corner_total s') * 100)]\<rparr>)
               else Inr s')))"

text \<open>Lines 31 to 93: the copy of the image, the regions and the loop over them.\<close>

definition process_corners :: "image \<Rightarrow> rat \<Rightarrow> int \<Rightarrow> error + loop_state" where
  "process_corners img corner_ratio color_tolerance =
     for_each (process_region (width img) (height img) color_tolerance)
       (corner_regions (width img) (height img) (corner_size (width img) corner_ratio))
       \<lparr>new_img = img, transparent_count = 0, corner_transparent = 0, corner_total = 0,
        region_lines = []\<rparr>"

section \<open>The statistics and the whole function\<close>

text \<open>What lines 93 and 97 to 100 print.\<close>

record report =
  per_region :: "region_line list"
  total_pixels :: int
  transparent_pixels :: int
  transparency_percentage :: rat

text \<open>
  Lines 31 to 102: the pass over an opened RGBA image, on a console that can print the
  messages. Line 34 raises \<^verbatim>\<open>OverflowError\<close> when the product has overflowed, before
  anything else is done. Line 95 divides by \<open>width * height\<close> and raises
  \<^verbatim>\<open>ZeroDivisionError\<close> when that is zero.
\<close>

definition mask_pass :: "image \<Rightarrow> rat \<Rightarrow> int \<Rightarrow> error + image \<times> report" where
  "mask_pass img corner_ratio color_tolerance =
     (if product_overflows (width img) corner_ratio then Inl OverflowError
      else
        (case process_corners img corner_ratio color_tolerance of
           Inl e \<Rightarrow> Inl e
         | Inr s \<Rightarrow>
             if width img * height img = 0 then Inl ZeroDivisionError
             else Inr (new_img s,
                    \<lparr>per_region = region_lines s,
                     total_pixels = width img * height img,
                     transparent_pixels = transparent_count s,
                     transparency_percentage =
                       of_int (transparent_count s) / of_int (width img * height img) * 100\<rparr>)))"

text \<open>
  The files: \<open>files path\<close> is \<open>None\<close> when \<^verbatim>\<open>Image.open\<close> fails for \<open>path\<close> (the
  decoding of the pixels, which the library delays, is taken to fail or succeed with it),
  and otherwise \<open>Some (rgba, img)\<close>, where \<open>rgba\<close> tells whether the mode of the file is
  RGBA and \<open>img\<close> is the RGBA image after the conversion of line 27; \<open>writable\<close> tells
  where \<^verbatim>\<open>save\<close> succeeds.

  The console: every message that the function prints holds an emoji or Chinese text, so
  a \<^verbatim>\<open>print\<close> raises \<^verbatim>\<open>UnicodeEncodeError\<close> when the encoding of the standard output has
  no such characters; \<open>encodable\<close> tells whether it has them. The console receives
  either the report or the message of the handler of line 109.
\<close>

datatype message = Report report | Error_Message error

type_synonym files = "string \<rightharpoonup> bool \<times> image"

text \<open>
  The body of the \<^verbatim>\<open>try\<close> statement, lines 22 to 106. Its first \<^verbatim>\<open>print\<close> is that of
  line 28 when the image is converted, and that of line 36 otherwise, after line 34.
\<close>

definition make_icon_transparent_body ::
  "bool \<Rightarrow> files \<Rightarrow> (string \<Rightarrow> bool) \<Rightarrow> string \<Rightarrow> string \<Rightarrow> rat \<Rightarrow> int \<Rightarrow>
     error + files \<times> report" where
  "make_icon_transparent_body encodable fs writable input_path output_path corner_ratio
       color_tolerance =
     (case fs input_path of
        None \<Rightarrow> Inl OpenError
      | Some (rgba, img) \<Rightarrow>
          if \<not> rgba \<and> \<not> encodable then Inl UnicodeEncodeError
          else if product_overflows (width img) corner_ratio then Inl OverflowError
          else if \<not> encodable then Inl UnicodeEncodeError
          else
            (case mask_pass img corner_ratio color_tolerance of
               Inl e \<Rightarrow> Inl e
             | Inr (im, rep) \<Rightarrow>
                 if writable output_path then Inr (fs(output_path \<mapsto> (True, im)), rep)
                 else Inl SaveError))"

text \<open>
  The function with its handler (lines 21, 108 and 109): \<open>Inr\<close> is a normal return, with
  the files and the console output; \<open>Inl\<close> is an exception that reaches the caller. The
  handler catches every exception of the body and prints its message; that \<^verbatim>\<open>print\<close>
  is not inside a \<^verbatim>\<open>try\<close> statement.
\<close>

definition make_icon_transparent ::
  "bool \<Rightarrow> files \<Rightarrow> (string \<Rightarrow> bool) \<Rightarrow> string \<Rightarrow> string \<Rightarrow> rat \<Rightarrow> int \<Rightarrow>
     error + files \<times> message" where
  "make_icon_transparent encodable fs writable input_path output_path corner_ratio
       color_tolerance =
     (case make_icon_transparent_body encodable fs writable input_path output_path
             corner_ratio color_tolerance of
        Inl e \<Rightarrow> if encodable then Inr (fs, Error_Message e) else Inl UnicodeEncodeError
      | Inr (fs', rep) \<Rightarrow> Inr (fs', Report rep))"

section \<open>What the loops visit\<close>

text \<open>
  The pixels of a region for which the test of line 77 succeeds, in the order of the two
  loops of lines 71 and 72: the pixels that line 78 counts.
\<close>

definition tested_pixels :: "int \<Rightarrow> int \<Rightarrow> region \<Rightarrow> (int \<times> int) list" where
  "tested_pixels w h reg =
     (case reg of (center_x, center_y, radius, name) \<Rightarrow>
        case bounding_box w h reg of (x1, y1, x2, y2) \<Rightarrow>
          concat (map (\<lambda>y. map (\<lambda>x. (x, y))
                               (filter (\<lambda>x. within_radius x y center_x center_y radius)
                                  (range_py x1 x2)))
                    (range_py y1 y2)))"

text \<open>The pixels of a bounding box: those the two loops run over.\<close>

definition box_pixels :: "int \<times> int \<times> int \<times> int \<Rightarrow> (int \<times> int) set" where
  "box_pixels box = (case box of (x1, y1, x2, y2) \<Rightarrow> {x1..<x2} \<times> {y1..<y2})"

text \<open>
  The effect of visiting the pixels \<open>ps\<close> with tolerance \<open>tol\<close>, from the state \<open>s\<close>
  to the state \<open>s'\<close>.
\<close>

definition loop_effect :: "int \<Rightarrow> (int \<times> int) list \<Rightarrow> loop_state \<Rightarrow> loop_state \<Rightarrow> bool" where
  "loop_effect tol ps s s' =
     (width (new_img s') = width (new_img s) \<and>
      height (new_img s') = height (new_img s) \<and>
      (\<forall>p. pixels (new_img s') p =
         (if p \<in> set ps \<and> near_white tol (pixels (new_img s) p)
          then transparent (pixels (new_img s) p) else pixels (new_img s) p)) \<and>
      corner_total s' = corner_total s + int (length ps) \<and>
      corner_transparent s' = corner_transparent s +
        int (length (filter (\<lambda>p. near_white tol (pixels (new_img s) p)) ps)) \<and>
      transparent_count s' = transparent_count s +
        int (length (filter (\<lambda>p. near_white tol (pixels (new_img s) p)) ps)) \<and>
      region_lines s' = region_lines s)"

text \<open>
  The number of tested pixels of a region that lines 83 to 85 classify as background in
  the image \<open>img\<close>: the pixels that line 87 writes.
\<close>

definition cleared_count :: "image \<Rightarrow> int \<Rightarrow> region \<Rightarrow> int" where
  "cleared_count img tol reg =
     int (length (filter (\<lambda>p. near_white tol (pixels img p))
                    (tested_pixels (width img) (height img) reg)))"

text \<open>The line that line 93 prints for a region of the image \<open>img\<close>, if it prints one.\<close>

definition region_line_of :: "image \<Rightarrow> int \<Rightarrow> region \<Rightarrow> region_line list" where
  "region_line_of img tol reg =
     (case reg of (center_x, center_y, radius, name) \<Rightarrow>
        let ps = tested_pixels (width img) (height img) reg;
            tested_count = int (length ps);
            cleared = int (length (filter (\<lambda>p. near_white tol (pixels img p)) ps))
        in if tested_count > 0
           then [(name, cleared, tested_count, of_int cleared / of_int tested_count * 100)]
           else [])"

text \<open>The effect of the loop over the regions \<open>regs\<close>.\<close>

definition pass_effect :: "int \<Rightarrow> region list \<Rightarrow> loop_state \<Rightarrow> loop_state \<Rightarrow> bool" where
  "pass_effect tol regs s s' =
     (width (new_img s') = width (new_img s) \<and>
      height (new_img s') = height (new_img s) \<and>
      (\<forall>p. pixels (new_img s') p =
         (if (\<exists>reg \<in> set regs.
                 p \<in> set (tested_pixels (width (new_img s)) (height (new_img s)) reg))
               \<and> near_white tol (pixels (new_img s) p)
          then transparent (pixels (new_img s) p) else pixels (new_img s) p)) \<and>
      transparent_count s' = transparent_count s +
        sum_list (map (cleared_count (new_img s) tol) regs) \<and>
      region_lines s' = region_lines s @ concat (map (region_line_of (new_img s) tol) regs))"

text \<open>The four regions of an image, and the pixels that some region tests.\<close>

definition regions_of :: "image \<Rightarrow> rat \<Rightarrow> region list" where
  "regions_of img corner_ratio =
     corner_regions (width img) (height img) (corner_size (width img) corner_ratio)"

definition tested :: "image \<Rightarrow> rat \<Rightarrow> int \<times> int \<Rightarrow> bool" where
  "tested img corner_ratio p =
     list_ex (\<lambda>reg. p \<in> set (tested_pixels (width img) (height img) reg))
       (regions_of img corner_ratio)"

text \<open>A pixel lies strictly outside the circle of every region.\<close>

definition outside_all_circles :: "image \<Rightarrow> rat \<Rightarrow> int \<times> int \<Rightarrow> bool" where
  "outside_all_circles img corner_ratio p =
     list_all (\<lambda>reg. case reg of (center_x, center_y, radius, name) \<Rightarrow>
                  \<not> within_radius (fst p) (snd p) center_x center_y radius)
       (regions_of img corner_ratio)"

text \<open>The pixels of the image \<open>before\<close> that are opaque or translucent there and fully
  transparent in \<open>after\<close>.\<close>

definition made_transparent :: "image \<Rightarrow> image \<Rightarrow> (int \<times> int) set" where
  "made_transparent before after =
     {p. inside before p \<and> alpha (pixels before p) \<noteq> 0 \<and> alpha (pixels after p) = 0}"

text \<open>The statistics that a pass over the image \<open>img\<close> reports.\<close>

definition report_for :: "image \<Rightarrow> rat \<Rightarrow> int \<Rightarrow> report" where
  "report_for img r t =
     \<lparr>per_region = concat (map (region_line_of img t) (regions_of img r)),
      total_pixels = width img * height img,
      transparent_pixels = sum_list (map (cleared_count img t) (regions_of img r)),
      transparency_percentage =
        of_int (sum_list (map (cleared_count img t) (regions_of img r))) /
        of_int (width img * height img) * 100\<rparr>"

text \<open>Observations of the result of a pass, and test images of a single colour.\<close>

definition report_of :: "error + image \<times> report \<Rightarrow> error + report" where
  "report_of res = (case res of Inl e \<Rightarrow> Inl e | Inr (im, rep) \<Rightarrow> Inr rep)"

definition pixel_of :: "error + image \<times> report \<Rightarrow> int \<times> int \<Rightarrow> error + pixel" where
  "pixel_of res xy = (case res of Inl e \<Rightarrow> Inl e | Inr (im, rep) \<Rightarrow> getpixel im xy)"

definition no_files :: files where
  "no_files = Map.empty"

definition every_path_writable :: "string \<Rightarrow> bool" where
  "every_path_writable path = True"

definition plain_icon :: "int \<Rightarrow> int \<Rightarrow> pixel \<Rightarrow> image" where
  "plain_icon w h p = \<lparr>width = w, height = h, pixels = (\<lambda>_. p)\<rparr>"

definition white_icon :: "int \<Rightarrow> int \<Rightarrow> image" where
  "white_icon w h = plain_icon w h (255, 255, 255, 255)"

section \<open>Facts about pixels and the distance test\<close>

lemma round_even_upper: "of_int (round_even x) \<le> x + 1 / 2"
  unfolding round_even_def Let_def by (auto; linarith)

lemma round_even_nonneg: "0 \<le> x \<Longrightarrow> 0 \<le> round_even x"
  unfolding round_even_def Let_def by (auto; linarith)

lemma bitlen_lower:
  assumes "0 < m"
  shows "(2::rat) powi (bitlen m - 1) \<le> of_int m"
proof -
  have "1 \<le> bitlen m" using assms bitlen_eq_zero_iff [of m] bitlen_nonneg [of m] by linarith
  then have "(2::rat) powi (bitlen m - 1) = 2 ^ nat (bitlen m - 1)"
    by (simp add: power_int_def)
  also have "\<dots> = of_int (2 ^ nat (bitlen m - 1))" by simp
  also have "\<dots> \<le> of_int m"
    using bitlen_bounds [OF assms] by (intro of_int_le_iff [THEN iffD2]) simp
  finally show ?thesis .
qed

lemma bitlen_upper:
  assumes "0 < m"
  shows "of_int m \<le> (2::rat) powi bitlen m"
proof -
  have "(2::rat) powi bitlen m = 2 ^ nat (bitlen m)"
    using bitlen_nonneg [of m] by (simp add: power_int_def)
  also have "\<dots> = of_int (2 ^ nat (bitlen m))" by simp
  finally have e: "(2::rat) powi bitlen m = of_int (2 ^ nat (bitlen m))" .
  have "m \<le> 2 ^ nat (bitlen m)" using bitlen_bounds [OF assms] by simp
  then show ?thesis unfolding e by (rule of_int_le_iff [THEN iffD2])
qed

lemma binary_exponent_le:
  assumes "0 < a"
  shows "2 powi binary_exponent a \<le> a"
proof -
  obtain p n where pn: "quotient_of a = (p, n)" by (cases "quotient_of a") auto
  have n: "0 < n" using pn by (rule quotient_of_denom_pos)
  have a: "a = of_int p / of_int n" using pn by (rule quotient_of_div)
  have p: "0 < p" using assms n unfolding a by (simp add: zero_less_divide_iff)
  define k where "k = bitlen p - bitlen n"
  show ?thesis
  proof (cases "2 powi k * of_int n \<le> (of_int p :: rat)")
    case True
    then have "2 powi k \<le> a" unfolding a using n by (simp add: pos_le_divide_eq)
    with True show ?thesis by (simp add: binary_exponent_def pn k_def)
  next
    case False
    have "(2::rat) powi (k - 1) * of_int n \<le> 2 powi (k - 1) * 2 powi bitlen n"
      using bitlen_upper [OF n] by (intro mult_left_mono) simp_all
    also have "\<dots> = 2 powi (bitlen p - 1)"
      by (simp add: k_def power_int_add [symmetric])
    also have "\<dots> \<le> of_int p" using p by (rule bitlen_lower)
    finally have "2 powi (k - 1) \<le> a" unfolding a using n by (simp add: pos_le_divide_eq)
    with False show ?thesis by (simp add: binary_exponent_def pn k_def)
  qed
qed

lemma double_round_nonneg: "0 \<le> q \<Longrightarrow> 0 \<le> double_round q"
  by (simp add: double_round_def Let_def round_even_nonneg sgn_if)

lemma double_round_nonpos:
  assumes "q \<le> 0"
  shows "double_round q \<le> 0"
proof (cases "q = 0")
  case True
  then show ?thesis by (simp add: double_round_def)
next
  case False
  define s where "s = max (binary_exponent \<bar>q\<bar> - 52) (- 1074)"
  have "0 \<le> \<bar>q\<bar> / 2 powi s" by simp
  then have "0 \<le> round_even (\<bar>q\<bar> / 2 powi s)" by (rule round_even_nonneg)
  then have "0 \<le> (of_int (round_even (\<bar>q\<bar> / 2 powi s)) :: rat) * 2 powi s" by simp
  moreover have "double_round q = - (of_int (round_even (\<bar>q\<bar> / 2 powi s)) * 2 powi s)"
    using False assms by (simp add: double_round_def Let_def s_def sgn_if)
  ultimately show ?thesis by simp
qed

lemma double_round_quarter:
  assumes "0 < q" and "q < 2 ^ 52"
  shows "double_round q \<le> q + 1 / 4"
proof -
  define s where "s = max (binary_exponent \<bar>q\<bar> - 52) (- 1074)"
  have "binary_exponent q < 52"
  proof (rule ccontr)
    assume "\<not> binary_exponent q < 52"
    then have "(2::rat) powi 52 \<le> 2 powi binary_exponent q"
      by (intro power_int_increasing) simp_all
    also have "\<dots> \<le> q" using assms(1) by (rule binary_exponent_le)
    finally show False using assms(2) by simp
  qed
  then have s: "s \<le> - 1" using assms(1) by (simp add: s_def)
  have "(2::rat) powi s \<le> 2 powi (- 1)"
    using s by (intro power_int_increasing) simp_all
  then have half: "(2::rat) powi s \<le> 1 / 2" by (simp add: power_int_minus)
  have pos: "0 < (2::rat) powi s" by simp
  have "double_round q = of_int (round_even (q / 2 powi s)) * 2 powi s"
    using assms(1) by (simp add: double_round_def Let_def s_def)
  also have "\<dots> \<le> (q / 2 powi s + 1 / 2) * 2 powi s"
    using round_even_upper [of "q / 2 powi s"] pos by (intro mult_right_mono) simp_all
  also have "\<dots> = q + 2 powi s / 2"
    using pos by (simp add: field_simps)
  also have "\<dots> \<le> q + 1 / 4" using half by simp
  finally show ?thesis .
qed

lemma py_int_nonpos: "q \<le> 0 \<Longrightarrow> py_int q \<le> 0"
  by (auto simp: py_int_def)

lemma float_product_nonpos: "of_int w * r \<le> 0 \<Longrightarrow> float_product w r \<le> 0"
  by (simp add: float_product_def double_round_nonpos)

lemma float_product_nonneg: "0 \<le> of_int w * r \<Longrightarrow> 0 \<le> float_product w r"
  by (simp add: float_product_def double_round_nonneg)

lemma float_product_half:
  assumes "corner_ratio \<le> 1 / 2" and "0 < w" and "0 < float_product w corner_ratio"
  shows "float_product w corner_ratio \<le> of_int w / 2 + 1 / 4"
proof -
  define q where "q = of_int w * corner_ratio"
  have le: "q \<le> of_int w * (1 / 2)"
    unfolding q_def using assms(1,2) by (intro mult_left_mono) simp_all
  show ?thesis
  proof (cases "\<bar>w\<bar> < 2 ^ 53")
    case True
    then have fp: "float_product w corner_ratio = double_round q"
      by (simp add: float_product_def q_def)
    have "0 < q" using assms(3) double_round_nonpos [of q] unfolding fp by linarith
    moreover have "(of_int w :: rat) < 2 ^ 53"
      using True by (metis abs_less_iff of_int_less_iff of_int_numeral of_int_power)
    then have "q < 2 ^ 52" using le by simp
    ultimately have "double_round q \<le> q + 1 / 4" by (rule double_round_quarter)
    with le show ?thesis unfolding fp by simp
  next
    case False
    then have "float_product w corner_ratio = q" by (simp add: float_product_def q_def)
    with le show ?thesis by simp
  qed
qed

text \<open>The test for an overflow of the product, on the numerator and the denominator.\<close>

lemma product_overflows_code [code]:
  "product_overflows w corner_ratio =
     (case quotient_of \<bar>of_int w * corner_ratio\<bar> of
        (p, n) \<Rightarrow> (2 ^ 1024 - 2 ^ 970) * n \<le> p)"
proof -
  obtain p n where pn: "quotient_of \<bar>of_int w * corner_ratio\<bar> = (p, n)"
    by (cases "quotient_of \<bar>of_int w * corner_ratio\<bar>") auto
  have n: "0 < n" using pn by (rule quotient_of_denom_pos)
  have q: "\<bar>of_int w * corner_ratio\<bar> = of_int p / of_int n" using pn by (rule quotient_of_div)
  have "product_overflows w corner_ratio \<longleftrightarrow>
      (2 ^ 1024 - 2 ^ 970 \<le> (of_int p / of_int n :: rat))"
    unfolding product_overflows_def q ..
  also have "\<dots> \<longleftrightarrow> (of_int ((2 ^ 1024 - 2 ^ 970) * n) \<le> (of_int p :: rat))"
    using n by (simp add: pos_le_divide_eq)
  also have "\<dots> \<longleftrightarrow> (2 ^ 1024 - 2 ^ 970) * n \<le> p"
    by (rule of_int_le_iff)
  finally have "product_overflows w corner_ratio \<longleftrightarrow> (2 ^ 1024 - 2 ^ 970) * n \<le> p" .
  then show ?thesis unfolding pn by simp
qed

lemma floor_half: "0 \<le> (q::rat) \<Longrightarrow> \<lfloor>q\<rfloor> div 2 = \<lfloor>q / 2\<rfloor>"
  by linarith

lemma within_radius_sqrt:
  "within_radius x y cx cy r \<longleftrightarrow> sqrt (real_of_int ((x - cx)\<^sup>2 + (y - cy)\<^sup>2)) \<le> real_of_int r"
proof (cases "0 \<le> r")
  case True
  let ?a = "real_of_int ((x - cx)\<^sup>2 + (y - cy)\<^sup>2)"
  have "sqrt ?a \<le> real_of_int r \<longleftrightarrow> ?a \<le> (real_of_int r)\<^sup>2"
    using True by (auto intro: real_le_lsqrt dest: sqrt_le_D)
  also have "\<dots> \<longleftrightarrow> (x - cx)\<^sup>2 + (y - cy)\<^sup>2 \<le> r\<^sup>2"
    by (metis of_int_le_iff of_int_power)
  finally show ?thesis using True by (simp add: within_radius_def)
next
  case False
  let ?a = "real_of_int ((x - cx)\<^sup>2 + (y - cy)\<^sup>2)"
  have "0 \<le> sqrt ?a" by simp
  moreover have "real_of_int r < 0" using False by simp
  ultimately have "\<not> sqrt ?a \<le> real_of_int r" by linarith
  moreover have "\<not> within_radius x y cx cy r" using False by (simp add: within_radius_def)
  ultimately show ?thesis by blast
qed

lemma u8_255: "255 \<le> uint (r::8 word) \<longleftrightarrow> r = 255"
proof -
  have "uint r < 2 ^ 8" using uint_lt2p [of r] by simp
  then have "255 \<le> uint r \<longleftrightarrow> uint r = uint (255::8 word)" by auto
  then show ?thesis by (simp add: word_uint_eq_iff)
qed

section \<open>The loops never leave the image\<close>

lemma near_white_transparent [simp]: "near_white tol (transparent p) = near_white tol p"
  by (cases p) (simp add: near_white_def transparent_def)

lemma transparent_idem [simp]: "transparent (transparent p) = transparent p"
  by (cases p) (simp add: transparent_def)

lemma alpha_transparent [simp]: "alpha (transparent p) = 0"
  by (cases p) (simp add: transparent_def alpha_def)

lemma loop_effect_refl: "loop_effect tol [] s s"
  by (simp add: loop_effect_def)

lemma loop_effect_pixels:
  "loop_effect tol ps s s' \<Longrightarrow> pixels (new_img s') p =
     (if p \<in> set ps \<and> near_white tol (pixels (new_img s) p)
      then transparent (pixels (new_img s) p) else pixels (new_img s) p)"
  unfolding loop_effect_def by blast

lemma loop_effect_near_white:
  "loop_effect tol ps s s' \<Longrightarrow> near_white t (pixels (new_img s') p) = near_white t (pixels (new_img s) p)"
  by (simp add: loop_effect_pixels)

lemma loop_effect_trans:
  assumes "loop_effect tol ps s s'" and "loop_effect tol qs s' s''"
  shows "loop_effect tol (ps @ qs) s s''"
proof -
  have nw: "\<And>p. near_white tol (pixels (new_img s') p) = near_white tol (pixels (new_img s) p)"
    using assms(1) by (rule loop_effect_near_white)
  have px: "\<And>p. pixels (new_img s'') p =
         (if p \<in> set (ps @ qs) \<and> near_white tol (pixels (new_img s) p)
          then transparent (pixels (new_img s) p) else pixels (new_img s) p)"
    by (auto simp add: loop_effect_pixels [OF assms(2)] loop_effect_pixels [OF assms(1)])
  have w: "width (new_img s'') = width (new_img s)" "height (new_img s'') = height (new_img s)"
    using assms by (simp_all add: loop_effect_def)
  have c: "corner_total s'' = corner_total s + int (length (ps @ qs))"
    "region_lines s'' = region_lines s"
    using assms by (simp_all add: loop_effect_def)
  have f: "filter (\<lambda>p. near_white tol (pixels (new_img s') p)) qs =
           filter (\<lambda>p. near_white tol (pixels (new_img s) p)) qs"
    by (simp add: nw)
  have t: "corner_transparent s'' = corner_transparent s +
        int (length (filter (\<lambda>p. near_white tol (pixels (new_img s) p)) (ps @ qs)))"
     "transparent_count s'' = transparent_count s +
        int (length (filter (\<lambda>p. near_white tol (pixels (new_img s) p)) (ps @ qs)))"
    using assms f by (simp_all add: loop_effect_def)
  show ?thesis
    unfolding loop_effect_def using px w c t by blast
qed

lemma visit_pixel_effect:
  assumes "inside (new_img s) (x, y)"
  shows "\<exists>s'. visit_pixel cx cy r tol y x s = Inr s' \<and>
           loop_effect tol (if within_radius x y cx cy r then [(x, y)] else []) s s'"
  using assms
  by (simp add: visit_pixel_def getpixel_def putpixel_def loop_effect_def Let_def)

lemma row_effect:
  assumes "\<forall>x\<in>set xs. inside (new_img s) (x, y)"
  shows "\<exists>s'. for_each (visit_pixel cx cy r tol y) xs s = Inr s' \<and>
           loop_effect tol (map (\<lambda>x. (x, y)) (filter (\<lambda>x. within_radius x y cx cy r) xs)) s s'"
  using assms
proof (induction xs arbitrary: s)
  case Nil
  then show ?case by (simp add: loop_effect_refl)
next
  case (Cons x xs)
  from Cons.prems have "inside (new_img s) (x, y)" by simp
  then obtain s1 where v: "visit_pixel cx cy r tol y x s = Inr s1"
    and e1: "loop_effect tol (if within_radius x y cx cy r then [(x, y)] else []) s s1"
    using visit_pixel_effect by blast
  have "\<forall>x\<in>set xs. inside (new_img s1) (x, y)"
    using Cons.prems e1 by (simp add: loop_effect_def inside_def)
  then obtain s' where f: "for_each (visit_pixel cx cy r tol y) xs s1 = Inr s'"
    and e2: "loop_effect tol (map (\<lambda>x. (x, y)) (filter (\<lambda>x. within_radius x y cx cy r) xs)) s1 s'"
    using Cons.IH by blast
  from loop_effect_trans [OF e1 e2] v f show ?case by (cases "within_radius x y cx cy r") simp_all
qed

lemma rows_effect:
  assumes "\<forall>y\<in>set ys. \<forall>x\<in>set xs. inside (new_img s) (x, y)"
  shows "\<exists>s'. for_each (\<lambda>y. for_each (visit_pixel cx cy r tol y) xs) ys s = Inr s' \<and>
           loop_effect tol
             (concat (map (\<lambda>y. map (\<lambda>x. (x, y)) (filter (\<lambda>x. within_radius x y cx cy r) xs)) ys))
             s s'"
  using assms
proof (induction ys arbitrary: s)
  case Nil
  then show ?case by (simp add: loop_effect_refl)
next
  case (Cons y ys)
  from Cons.prems have "\<forall>x\<in>set xs. inside (new_img s) (x, y)" by simp
  then obtain s1 where v: "for_each (visit_pixel cx cy r tol y) xs s = Inr s1"
    and e1: "loop_effect tol (map (\<lambda>x. (x, y)) (filter (\<lambda>x. within_radius x y cx cy r) xs)) s s1"
    using row_effect by blast
  have "\<forall>y\<in>set ys. \<forall>x\<in>set xs. inside (new_img s1) (x, y)"
    using Cons.prems e1 by (simp add: loop_effect_def inside_def)
  then obtain s' where f: "for_each (\<lambda>y. for_each (visit_pixel cx cy r tol y) xs) ys s1 = Inr s'"
    and e2: "loop_effect tol
             (concat (map (\<lambda>y. map (\<lambda>x. (x, y)) (filter (\<lambda>x. within_radius x y cx cy r) xs)) ys))
             s1 s'"
    using Cons.IH by blast
  from loop_effect_trans [OF e1 e2] v f show ?case by simp
qed

lemma set_range: "set (range_py a b) = {a..<b}"
  by (auto simp: range_py_def)

lemma tested_pixels_iff:
  "(x, y) \<in> set (tested_pixels w h (cx, cy, r, name)) \<longleftrightarrow>
     max 0 (cx - r) \<le> x \<and> x < min w (cx + r) \<and>
     max 0 (cy - r) \<le> y \<and> y < min h (cy + r) \<and> within_radius x y cx cy r"
  by (auto simp: tested_pixels_def bounding_box_def set_range)

lemma region_line_of_eq:
  "region_line_of img tol (cx, cy, r, name) =
     (if 0 < int (length (tested_pixels (width img) (height img) (cx, cy, r, name)))
      then [(name, cleared_count img tol (cx, cy, r, name),
             int (length (tested_pixels (width img) (height img) (cx, cy, r, name))),
             of_int (cleared_count img tol (cx, cy, r, name)) /
             of_int (int (length (tested_pixels (width img) (height img) (cx, cy, r, name)))) * 100)]
      else [])"
  by (simp add: region_line_of_def cleared_count_def Let_def)

lemma process_region_effect:
  assumes w_def: "w = width (new_img s)" and h_def: "h = height (new_img s)"
  shows "\<exists>s'. process_region w h tol reg s = Inr s' \<and> pass_effect tol [reg] s s'"
proof -
  obtain cx cy r name where reg: "reg = (cx, cy, r, name)"
    by (cases reg) auto
  define x1 where "x1 = max 0 (cx - r)"
  define y1 where "y1 = max 0 (cy - r)"
  define x2 where "x2 = min w (cx + r)"
  define y2 where "y2 = min h (cy + r)"
  define s0 where "s0 = s\<lparr>corner_transparent := 0, corner_total := 0\<rparr>"
  have box: "bounding_box w h reg = (x1, y1, x2, y2)"
    by (simp add: bounding_box_def reg x1_def y1_def x2_def y2_def)
  have ps: "tested_pixels w h reg =
      concat (map (\<lambda>y. map (\<lambda>x. (x, y)) (filter (\<lambda>x. within_radius x y cx cy r) (range_py x1 x2)))
                (range_py y1 y2))"
    using box by (simp add: tested_pixels_def reg)
  have "\<forall>y\<in>set (range_py y1 y2). \<forall>x\<in>set (range_py x1 x2). inside (new_img s0) (x, y)"
    by (auto simp: set_range inside_def s0_def x1_def y1_def x2_def y2_def w_def h_def)
  then obtain s' where
    run: "for_each (\<lambda>y. for_each (visit_pixel cx cy r tol y) (range_py x1 x2)) (range_py y1 y2) s0 = Inr s'"
    and eff: "loop_effect tol (tested_pixels w h reg) s0 s'"
    using rows_effect [of "range_py y1 y2" "range_py x1 x2" s0 cx cy r tol] ps by auto
  define s'' where "s'' = (if corner_total s' > 0 then
                s'\<lparr>region_lines := region_lines s' @
                       [(name, corner_transparent s', corner_total s',
                         of_int (corner_transparent s') / of_int (corner_total s') * 100)]\<rparr>
              else s')"
  have res: "process_region w h tol reg s = Inr s''"
    using run box by (simp add: process_region_def reg s''_def s0_def)
  have tot: "corner_total s' = int (length (tested_pixels w h reg))"
    and clr: "corner_transparent s' = cleared_count (new_img s) tol reg"
    and cnt: "transparent_count s' = transparent_count s + cleared_count (new_img s) tol reg"
    and lns: "region_lines s' = region_lines s"
    and dims: "width (new_img s') = w" "height (new_img s') = h"
    using eff by (simp_all add: loop_effect_def s0_def cleared_count_def w_def h_def)
  have px: "\<And>p. pixels (new_img s') p =
     (if p \<in> set (tested_pixels w h reg) \<and> near_white tol (pixels (new_img s) p)
      then transparent (pixels (new_img s) p) else pixels (new_img s) p)"
    using loop_effect_pixels [OF eff] by (simp add: s0_def)
  have img: "new_img s'' = new_img s'" and tc: "transparent_count s'' = transparent_count s'"
    by (simp_all add: s''_def)
  have lines: "region_lines s'' = region_lines s @ region_line_of (new_img s) tol reg"
    using tot clr lns by (simp add: s''_def reg region_line_of_eq w_def h_def)
  have "pass_effect tol [reg] s s''"
    unfolding pass_effect_def using px dims cnt lines by (simp add: img tc w_def h_def)
  with res show ?thesis by blast
qed

lemma cleared_count_cong:
  assumes "width a = width b" "height a = height b"
    and "\<And>p. near_white tol (pixels a p) = near_white tol (pixels b p)"
  shows "cleared_count a tol reg = cleared_count b tol reg"
  using assms by (simp add: cleared_count_def)

lemma region_line_of_cong:
  assumes "width a = width b" "height a = height b"
    and "\<And>p. near_white tol (pixels a p) = near_white tol (pixels b p)"
  shows "region_line_of a tol reg = region_line_of b tol reg"
  using assms by (simp add: region_line_of_def)

lemma pass_effect_pixels:
  "pass_effect tol regs s s' \<Longrightarrow> pixels (new_img s') p =
     (if (\<exists>reg \<in> set regs. p \<in> set (tested_pixels (width (new_img s)) (height (new_img s)) reg))
           \<and> near_white tol (pixels (new_img s) p)
      then transparent (pixels (new_img s) p) else pixels (new_img s) p)"
  unfolding pass_effect_def by blast

lemma pass_effect_Nil: "pass_effect tol [] s s"
  by (simp add: pass_effect_def)

lemma pass_effect_Cons:
  assumes "pass_effect tol [reg] s s1" and "pass_effect tol regs s1 s'"
  shows "pass_effect tol (reg # regs) s s'"
proof -
  have w: "width (new_img s1) = width (new_img s)" "height (new_img s1) = height (new_img s)"
    using assms(1) by (simp_all add: pass_effect_def)
  have nw: "\<And>p. near_white tol (pixels (new_img s1) p) = near_white tol (pixels (new_img s) p)"
    by (simp add: pass_effect_pixels [OF assms(1)])
  have cc: "map (cleared_count (new_img s1) tol) regs = map (cleared_count (new_img s) tol) regs"
    using cleared_count_cong [OF w nw] by simp
  have rl: "map (region_line_of (new_img s1) tol) regs = map (region_line_of (new_img s) tol) regs"
    using region_line_of_cong [OF w nw] by simp
  have px: "\<And>p. pixels (new_img s') p =
     (if (\<exists>r \<in> set (reg # regs). p \<in> set (tested_pixels (width (new_img s)) (height (new_img s)) r))
           \<and> near_white tol (pixels (new_img s) p)
      then transparent (pixels (new_img s) p) else pixels (new_img s) p)"
    by (auto simp add: pass_effect_pixels [OF assms(2)] pass_effect_pixels [OF assms(1)] w)
  have d: "width (new_img s') = width (new_img s)" "height (new_img s') = height (new_img s)"
    using assms by (simp_all add: pass_effect_def)
  have c: "transparent_count s' = transparent_count s +
        sum_list (map (cleared_count (new_img s) tol) (reg # regs))"
    using assms cc by (simp add: pass_effect_def)
  have l: "region_lines s' = region_lines s @ concat (map (region_line_of (new_img s) tol) (reg # regs))"
    using assms rl by (simp add: pass_effect_def)
  show ?thesis
    unfolding pass_effect_def using px d c l by blast
qed

lemma regions_effect:
  assumes "w = width (new_img s)" and "h = height (new_img s)"
  shows "\<exists>s'. for_each (process_region w h tol) regs s = Inr s' \<and> pass_effect tol regs s s'"
  using assms
proof (induction regs arbitrary: s)
  case Nil
  show ?case by (simp add: pass_effect_Nil)
next
  case (Cons reg regs)
  obtain s1 where r: "process_region w h tol reg s = Inr s1"
    and e1: "pass_effect tol [reg] s s1"
    using process_region_effect [OF Cons.prems] by blast
  have "w = width (new_img s1)" and "h = height (new_img s1)"
    using e1 Cons.prems by (simp_all add: pass_effect_def)
  then obtain s' where f: "for_each (process_region w h tol) regs s1 = Inr s'"
    and e2: "pass_effect tol regs s1 s'"
    using Cons.IH by blast
  from pass_effect_Cons [OF e1 e2] r f show ?case by simp
qed

lemma process_corners_effect:
  "\<exists>s. process_corners img ratio tol = Inr s \<and>
     width (new_img s) = width img \<and> height (new_img s) = height img \<and>
     (\<forall>p. pixels (new_img s) p =
        (if tested img ratio p \<and> near_white tol (pixels img p)
         then transparent (pixels img p) else pixels img p)) \<and>
     transparent_count s = sum_list (map (cleared_count img tol) (regions_of img ratio)) \<and>
     region_lines s = concat (map (region_line_of img tol) (regions_of img ratio))"
proof -
  define s0 where "s0 = \<lparr>new_img = img, transparent_count = 0, corner_transparent = 0,
     corner_total = 0, region_lines = []\<rparr>"
  have "width img = width (new_img s0)" and "height img = height (new_img s0)"
    by (simp_all add: s0_def)
  then obtain s where
    r: "for_each (process_region (width img) (height img) tol) (regions_of img ratio) s0 = Inr s"
    and e: "pass_effect tol (regions_of img ratio) s0 s"
    using regions_effect by blast
  have "process_corners img ratio tol = Inr s"
    using r by (simp add: process_corners_def regions_of_def s0_def)
  moreover have "\<And>p. pixels (new_img s) p =
        (if tested img ratio p \<and> near_white tol (pixels img p)
         then transparent (pixels img p) else pixels img p)"
    using pass_effect_pixels [OF e] by (simp add: s0_def tested_def list_ex_iff)
  moreover have "width (new_img s) = width img" "height (new_img s) = height img"
    "transparent_count s = sum_list (map (cleared_count img tol) (regions_of img ratio))"
    "region_lines s = concat (map (region_line_of img tol) (regions_of img ratio))"
    using e by (simp_all add: pass_effect_def s0_def)
  ultimately show ?thesis by blast
qed

section \<open>The result of a pass\<close>

lemma image_eqI:
  fixes a b :: image
  assumes "width a = width b" "height a = height b" "\<And>p. pixels a p = pixels b p"
  shows "a = b"
proof -
  have "pixels a = pixels b" using assms(3) by (rule ext)
  with assms(1,2) show ?thesis by simp
qed

lemma regions_of_cong:
  "width a = width b \<Longrightarrow> height a = height b \<Longrightarrow> regions_of a r = regions_of b r"
  by (simp add: regions_of_def)

lemma tested_cong:
  "width a = width b \<Longrightarrow> height a = height b \<Longrightarrow> tested a r p = tested b r p"
  by (simp add: tested_def regions_of_def)

lemma mask_passD:
  assumes "mask_pass img r t = Inr (img', rep)"
  shows "width img * height img \<noteq> 0"
    and "width img' = width img" and "height img' = height img"
    and "pixels img' p =
        (if tested img r p \<and> near_white t (pixels img p)
         then transparent (pixels img p) else pixels img p)"
    and "rep = report_for img r t"
    and "\<not> product_overflows (width img) r"
proof -
  from assms show no: "\<not> product_overflows (width img) r"
    by (auto simp: mask_pass_def split: if_splits)
  obtain s where run: "process_corners img r t = Inr s"
    and w: "width (new_img s) = width img" and h: "height (new_img s) = height img"
    and px: "\<And>p. pixels (new_img s) p =
        (if tested img r p \<and> near_white t (pixels img p)
         then transparent (pixels img p) else pixels img p)"
    and tc: "transparent_count s = sum_list (map (cleared_count img t) (regions_of img r))"
    and rl: "region_lines s = concat (map (region_line_of img t) (regions_of img r))"
    using process_corners_effect [of img r t] by blast
  from assms run no show nz: "width img * height img \<noteq> 0"
    by (auto simp: mask_pass_def split: if_splits)
  from assms run nz no have i: "img' = new_img s"
    by (simp add: mask_pass_def)
  from i w show "width img' = width img" by simp
  from i h show "height img' = height img" by simp
  from i px show "pixels img' p =
        (if tested img r p \<and> near_white t (pixels img p)
         then transparent (pixels img p) else pixels img p)" by simp
  from assms run nz no tc rl show "rep = report_for img r t"
    by (simp add: mask_pass_def report_for_def)
qed

lemma mask_passI:
  assumes "width img * height img \<noteq> 0"
    and "width img' = width img" and "height img' = height img"
    and "\<And>p. pixels img' p =
        (if tested img r p \<and> near_white t (pixels img p)
         then transparent (pixels img p) else pixels img p)"
    and "\<not> product_overflows (width img) r"
  shows "mask_pass img r t = Inr (img', report_for img r t)"
proof -
  obtain s where run: "process_corners img r t = Inr s"
    and w: "width (new_img s) = width img" and h: "height (new_img s) = height img"
    and px: "\<And>p. pixels (new_img s) p =
        (if tested img r p \<and> near_white t (pixels img p)
         then transparent (pixels img p) else pixels img p)"
    and tc: "transparent_count s = sum_list (map (cleared_count img t) (regions_of img r))"
    and rl: "region_lines s = concat (map (region_line_of img t) (regions_of img r))"
    using process_corners_effect [of img r t] by blast
  have "new_img s = img'"
  proof (rule image_eqI)
    show "width (new_img s) = width img'" using w assms(2) by simp
    show "height (new_img s) = height img'" using h assms(3) by simp
    show "pixels (new_img s) p = pixels img' p" for p
      unfolding px assms(4) ..
  qed
  then show ?thesis
    using assms(1,5) run tc rl by (simp add: mask_pass_def report_for_def)
qed

lemma mask_pass_total:
  "width img * height img \<noteq> 0 \<Longrightarrow> \<not> product_overflows (width img) r \<Longrightarrow>
     \<exists>img' rep. mask_pass img r t = Inr (img', rep)"
  using process_corners_effect [of img r t] by (auto simp: mask_pass_def)

lemma small_product:
  assumes "\<bar>w\<bar> < 2 ^ 53" and "\<bar>r\<bar> \<le> 1"
  shows "\<not> product_overflows w r"
proof -
  have "\<bar>of_int w * r\<bar> = \<bar>of_int w :: rat\<bar> * \<bar>r\<bar>" by (simp add: abs_mult)
  also have "\<dots> \<le> \<bar>of_int w\<bar> * 1"
    using assms(2) by (intro mult_left_mono) simp_all
  also have "\<dots> < 2 ^ 53"
    using assms(1) by (metis mult.right_neutral of_int_abs of_int_less_iff
        of_int_numeral of_int_power)
  also have "(2::rat) ^ 53 \<le> 2 ^ 1024 - 2 ^ 970" by simp
  finally show ?thesis by (simp add: product_overflows_def)
qed

lemma tested_within:
  "p \<in> set (tested_pixels w h reg) \<Longrightarrow>
     (case reg of (cx, cy, r, n) \<Rightarrow> within_radius (fst p) (snd p) cx cy r)"
  by (cases reg; cases p) (simp add: tested_pixels_iff)

lemma tested_not_outside:
  assumes "tested img r p"
  shows "\<not> outside_all_circles img r p"
proof -
  from assms obtain reg where reg: "reg \<in> set (regions_of img r)"
    and p: "p \<in> set (tested_pixels (width img) (height img) reg)"
    by (auto simp: tested_def list_ex_iff)
  from tested_within [OF p] have "\<not> (case reg of (cx, cy, r, n) \<Rightarrow>
      \<not> within_radius (fst p) (snd p) cx cy r)"
    by (cases reg) simp
  with reg show ?thesis
    unfolding outside_all_circles_def list_all_iff by blast
qed

section \<open>A larger tolerance\<close>

lemma near_white_mono: "t1 \<le> t2 \<Longrightarrow> near_white t1 p \<Longrightarrow> near_white t2 p"
  by (cases p) (auto simp: near_white_def)

lemma length_filter_mono:
  "(\<And>x. x \<in> set xs \<Longrightarrow> P x \<Longrightarrow> Q x) \<Longrightarrow> length (filter P xs) \<le> length (filter Q xs)"
  by (induction xs) auto

lemma cleared_count_mono:
  "t1 \<le> t2 \<Longrightarrow> cleared_count img t1 reg \<le> cleared_count img t2 reg"
  unfolding cleared_count_def
  by (simp add: length_filter_mono near_white_mono)

section \<open>Regions that test no pixel\<close>

lemma tested_pixels_empty:
  "tested_pixels w h reg = [] \<longleftrightarrow> (\<forall>p. p \<notin> set (tested_pixels w h reg))"
  by (cases "tested_pixels w h reg") auto

lemma corner_size_nonpos:
  assumes "corner_ratio \<le> 0" and "0 \<le> w"
  shows "corner_size w corner_ratio \<le> 0"
proof -
  have "of_int w * corner_ratio \<le> (0::rat)"
    using assms by (simp add: mult_nonneg_nonpos)
  then have "float_product w corner_ratio \<le> 0"
    by (simp add: float_product_nonpos)
  then show ?thesis unfolding corner_size_def by (rule py_int_nonpos)
qed

lemma degenerate_box_empty:
  assumes "r \<le> 0 \<or> w \<le> 0 \<or> h \<le> 0"
    and "cx = r \<or> cx = w - r" and "cy = r \<or> cy = h - r"
  shows "tested_pixels w h (cx, cy, r, name) = []"
proof -
  have ne: "(x, y) \<notin> set (tested_pixels w h (cx, cy, r, name))" for x y
  proof
    assume "(x, y) \<in> set (tested_pixels w h (cx, cy, r, name))"
    then have b: "max 0 (cx - r) \<le> x" "x < min w (cx + r)"
      "max 0 (cy - r) \<le> y" "y < min h (cy + r)"
      by (simp_all add: tested_pixels_iff)
    from b have "0 \<le> x" "cx - r \<le> x" "x < w" "x < cx + r"
      "0 \<le> y" "cy - r \<le> y" "y < h" "y < cy + r"
      by linarith+
    with assms show False by linarith
  qed
  have "p \<notin> set (tested_pixels w h (cx, cy, r, name))" for p
    using ne [of "fst p" "snd p"] by simp
  then show ?thesis by (simp add: tested_pixels_empty)
qed

lemma degenerate_region_empty:
  assumes "r \<le> 0 \<or> w \<le> 0 \<or> h \<le> 0"
    and "reg \<in> set (corner_regions w h cs)" and "r = cs div 2"
  shows "tested_pixels w h reg = []"
  using assms(2) degenerate_box_empty [OF assms(1)]
  by (auto simp: corner_regions_def assms(3) [symmetric])

section \<open>Every tested pixel is counted once\<close>

lemma distinct_rows:
  assumes "distinct xs" and "distinct ys"
  shows "distinct (concat (map (\<lambda>y. map (\<lambda>x. (x, y)) (filter (P y) xs)) ys))"
  using assms(2)
proof (induction ys)
  case Nil
  show ?case by simp
next
  case (Cons y ys)
  have "distinct (map (\<lambda>x. (x, y)) (filter (P y) xs))"
    using assms(1) by (simp add: distinct_map inj_on_def)
  moreover have "distinct (concat (map (\<lambda>y. map (\<lambda>x. (x, y)) (filter (P y) xs)) ys))"
    using Cons by simp
  moreover have "set (map (\<lambda>x. (x, y)) (filter (P y) xs)) \<inter>
      set (concat (map (\<lambda>y. map (\<lambda>x. (x, y)) (filter (P y) xs)) ys)) = {}"
    using Cons.prems by auto
  ultimately show ?case by simp
qed

lemma distinct_tested_pixels: "distinct (tested_pixels w h reg)"
proof -
  have "distinct (range_py a b)" for a b by (simp add: range_py_def)
  then show ?thesis
    by (cases reg) (simp add: tested_pixels_def bounding_box_def distinct_rows)
qed

lemma length_tested_pixels:
  "length (tested_pixels w h reg) = card (set (tested_pixels w h reg))"
  by (simp add: distinct_card distinct_tested_pixels)

section \<open>Bounding boxes\<close>

lemma box_pixels_iff:
  "(x, y) \<in> box_pixels (bounding_box w h (cx, cy, r, name)) \<longleftrightarrow>
     max 0 (cx - r) \<le> x \<and> x < min w (cx + r) \<and>
     max 0 (cy - r) \<le> y \<and> y < min h (cy + r)"
  by (simp add: box_pixels_def bounding_box_def)

text \<open>The float 0.6 and the rational \<open>3 / 5\<close> give the same corner size for width 8.\<close>

lemma corner_size_six_tenths:
  "double_round (3 / 5) = 5404319552844595 / 9007199254740992"
  "corner_size 8 (5404319552844595 / 9007199254740992) = corner_size 8 (3 / 5)"
  by code_simp+

lemma corner_size_values:
  "corner_size 8 (1 / 4) = 2" "corner_size 16 (1 / 2) = 8" "corner_size 400 (1 / 4) = 100"
  by code_simp+

lemma radius_quarter:
  assumes "corner_ratio \<le> 1 / 2" and "0 < w" and "0 < corner_size w corner_ratio div 2"
  shows "4 * (corner_size w corner_ratio div 2) \<le> w"
proof -
  define P where "P = float_product w corner_ratio"
  have cs: "corner_size w corner_ratio = py_int P" by (simp add: corner_size_def P_def)
  have "0 < py_int P" using assms(3) cs by linarith
  then have pos: "0 < P" using py_int_nonpos [of P] by linarith
  then have "of_int (py_int P) \<le> P" by (simp add: py_int_def)
  also have "P \<le> of_int w / 2 + 1 / 4"
    using float_product_half [OF assms(1,2)] pos unfolding P_def by simp
  finally have "4 * of_int (py_int P) \<le> (of_int (2 * w + 1) :: rat)" by simp
  then have "4 * py_int P \<le> 2 * w + 1"
    by (metis of_int_le_iff of_int_mult of_int_numeral)
  then have "2 * py_int P \<le> w" by presburger
  then show ?thesis unfolding cs by linarith
qed

lemma left_right_disjoint:
  assumes "r \<le> 0 \<or> w \<le> 0 \<or> 4 * r \<le> w"
  shows "box_pixels (bounding_box w h (r, cy, r, n)) \<inter>
         box_pixels (bounding_box w h (w - r, cy', r, n')) = {}"
proof -
  have "\<not> ((x, y) \<in> box_pixels (bounding_box w h (r, cy, r, n)) \<and>
           (x, y) \<in> box_pixels (bounding_box w h (w - r, cy', r, n')))" for x y
  proof
    assume "(x, y) \<in> box_pixels (bounding_box w h (r, cy, r, n)) \<and>
           (x, y) \<in> box_pixels (bounding_box w h (w - r, cy', r, n'))"
    then have "max 0 (r - r) \<le> x" "x < min w (r + r)"
      "max 0 (w - r - r) \<le> x" "x < min w (w - r + r)"
      by (simp_all add: box_pixels_iff)
    then have "0 \<le> x" "x < w" "x < 2 * r" "w - 2 * r \<le> x" by linarith+
    with assms show False by linarith
  qed
  then show ?thesis by auto
qed

lemma top_bottom_disjoint:
  assumes "r \<le> 0 \<or> w \<le> 0 \<or> 4 * r \<le> h"
  shows "box_pixels (bounding_box w h (cx, r, r, n)) \<inter>
         box_pixels (bounding_box w h (cx', h - r, r, n')) = {}"
proof -
  have "\<not> ((x, y) \<in> box_pixels (bounding_box w h (cx, r, r, n)) \<and>
           (x, y) \<in> box_pixels (bounding_box w h (cx', h - r, r, n')))" for x y
  proof
    assume "(x, y) \<in> box_pixels (bounding_box w h (cx, r, r, n)) \<and>
           (x, y) \<in> box_pixels (bounding_box w h (cx', h - r, r, n'))"
    then have "max 0 (r - r) \<le> y" "y < min h (r + r)"
      "max 0 (h - r - r) \<le> y" "y < min h (h - r + r)"
      "max 0 (cx - r) \<le> x" "x < min w (cx + r)"
      by (simp_all add: box_pixels_iff)
    then have "0 \<le> y" "y < h" "y < 2 * r" "h - 2 * r \<le> y" "0 \<le> x" "x < w"
      by linarith+
    with assms show False by linarith
  qed
  then show ?thesis by auto
qed

section \<open>The classifier\<close>

text \<open>
  Claim C4. A pixel is classified as background exactly when each of its three colour
  channels is at least \<open>255 - color_tolerance\<close>; the alpha channel plays no part; with
  tolerance 0 only \<open>(255, 255, 255)\<close> is background, and with tolerance 255 every pixel is.
\<close>

theorem near_white_classifier:
  "(near_white tol (r, g, b, a) \<longleftrightarrow>
      255 - tol \<le> uint r \<and> 255 - tol \<le> uint g \<and> 255 - tol \<le> uint b) \<and>
   near_white tol (r, g, b, a) = near_white tol (r, g, b, a') \<and>
   (near_white 0 (r, g, b, a) \<longleftrightarrow> r = 255 \<and> g = 255 \<and> b = 255) \<and>
   near_white 255 (r, g, b, a)"
  by (simp add: near_white_def u8_255)

section \<open>The geometry of the regions\<close>

text \<open>
  Claim C5 as stated fails, because line 34 rounds the product before it truncates. The
  float 0.3 is \<open>5404319552844595 / 2 ^ 54\<close>; for width 20 the product rounds to 6 and the
  radius is 3, while \<open>\<lfloor>20 * 0.3 / 2\<rfloor>\<close> at the value of the float is 2. The float 0.29 is
  \<open>5224175567749775 / 2 ^ 54\<close>; for width 400 the radius is 57, while \<open>\<lfloor>400 * 0.29 / 2\<rfloor>\<close>
  at the decimal value is 58.
\<close>

theorem radius_counterexample:
  "double_round (3 / 10) = 5404319552844595 / 18014398509481984 \<and>
   corner_regions 20 20 (corner_size 20 (5404319552844595 / 18014398509481984)) =
     [(3, 3, 3, Top_Left), (17, 3, 3, Top_Right),
      (3, 17, 3, Bottom_Left), (17, 17, 3, Bottom_Right)] \<and>
   \<lfloor>20 * (5404319552844595 / 18014398509481984) / 2 :: rat\<rfloor> = 2 \<and>
   double_round (29 / 100) = 5224175567749775 / 18014398509481984 \<and>
   corner_size 400 (5224175567749775 / 18014398509481984) div 2 = 57 \<and>
   \<lfloor>400 * (29 / 100) / 2 :: rat\<rfloor> = 58"
  by code_simp

text \<open>
  Claim C5, amended. For an image of width \<open>w \<ge> 0\<close> and a ratio that is not negative (so
  for every ratio in \<open>(0, 0.5]\<close>), there are exactly four regions, each of radius
  \<open>\<lfloor>p / 2\<rfloor>\<close>, where \<open>p\<close> is the product \<open>w * corner_ratio\<close> in double precision, and each
  centred \<open>radius\<close> pixels inside the corresponding corner of the image along both axes.
\<close>

theorem corner_regions_geometry:
  assumes "0 \<le> w" and "0 \<le> corner_ratio"
  shows "let radius = \<lfloor>float_product w corner_ratio / 2\<rfloor> in
     corner_regions w h (corner_size w corner_ratio) =
       [(radius, radius, radius, Top_Left),
        (w - radius, radius, radius, Top_Right),
        (radius, h - radius, radius, Bottom_Left),
        (w - radius, h - radius, radius, Bottom_Right)]"
proof -
  have "0 \<le> of_int w * corner_ratio" using assms by simp
  then have "0 \<le> float_product w corner_ratio" by (rule float_product_nonneg)
  then have "corner_size w corner_ratio div 2 = \<lfloor>float_product w corner_ratio / 2\<rfloor>"
    by (simp add: corner_size_def py_int_def floor_half)
  then show ?thesis by (simp add: corner_regions_def Let_def)
qed

theorem corner_regions_geometry_witness:
  "corner_regions 400 400 (corner_size 400 (1 / 4)) =
     [(50, 50, 50, Top_Left), (350, 50, 50, Top_Right),
      (50, 350, 50, Bottom_Left), (350, 350, 50, Bottom_Right)]"
proof -
  have p: "float_product 400 (1 / 4) = 100" by code_simp
  show ?thesis
    using corner_regions_geometry [of 400 "1 / 4" 400] by (simp add: Let_def p)
qed

section \<open>What a pass changes\<close>

text \<open>
  Claim C3. After a pass that returns, the image has the same size; a pixel that lies
  strictly outside the circles of all four regions keeps its four channels; and whatever
  the pixel, its red, green and blue channels are unchanged and its alpha channel is
  either unchanged or 0.
\<close>

theorem region_containment:
  assumes "mask_pass img corner_ratio color_tolerance = Inr (img', rep)"
  shows "width img' = width img \<and> height img' = height img \<and>
    (outside_all_circles img corner_ratio p \<longrightarrow> pixels img' p = pixels img p) \<and>
    (\<forall>r g b a. pixels img p = (r, g, b, a) \<longrightarrow>
       pixels img' p = (r, g, b, a) \<or> pixels img' p = (r, g, b, 0))"
proof -
  note px = mask_passD(4) [OF assms, of p]
  have "outside_all_circles img corner_ratio p \<longrightarrow> pixels img' p = pixels img p"
    using px tested_not_outside by auto
  moreover have "\<forall>r g b a. pixels img p = (r, g, b, a) \<longrightarrow>
       pixels img' p = (r, g, b, a) \<or> pixels img' p = (r, g, b, 0)"
    using px by (auto simp: transparent_def)
  ultimately show ?thesis using mask_passD(2,3) [OF assms] by blast
qed

theorem region_containment_witness:
  "\<exists>img' rep. mask_pass (white_icon 8 8) (1 / 4) 50 = Inr (img', rep) \<and>
     width img' = 8 \<and> height img' = 8 \<and> pixels img' (4, 4) = (255, 255, 255, 255)"
proof -
  obtain img' rep where m: "mask_pass (white_icon 8 8) (1 / 4) 50 = Inr (img', rep)"
    using mask_pass_total [of "white_icon 8 8" "1 / 4" 50]
    by (auto simp: white_icon_def plain_icon_def small_product)
  have o: "outside_all_circles (white_icon 8 8) (1 / 4) (4, 4)"
    by code_simp
  from region_containment [OF m, of "(4, 4)"] o m show ?thesis
    by (auto simp: white_icon_def plain_icon_def)
qed

text \<open>
  Claim C6. A pass applied to the image that a pass returned, with the same ratio and
  tolerance, returns that image again (and the same statistics).
\<close>

theorem mask_idempotent:
  assumes "mask_pass img corner_ratio color_tolerance = Inr (img1, rep1)"
  shows "mask_pass img1 corner_ratio color_tolerance = Inr (img1, rep1)"
proof -
  note w = mask_passD(2,3) [OF assms]
  note px = mask_passD(4) [OF assms]
  have nz: "width img1 * height img1 \<noteq> 0"
    using mask_passD(1) [OF assms] w by simp
  have nw: "\<And>p. near_white color_tolerance (pixels img1 p) =
      near_white color_tolerance (pixels img p)"
    by (simp add: px)
  have fixed: "\<And>p. pixels img1 p =
        (if tested img1 corner_ratio p \<and> near_white color_tolerance (pixels img1 p)
         then transparent (pixels img1 p) else pixels img1 p)"
    by (simp add: tested_cong [OF w] nw) (simp add: px)
  have "map (region_line_of img1 color_tolerance) (regions_of img1 corner_ratio) =
      map (region_line_of img color_tolerance) (regions_of img corner_ratio)"
    using region_line_of_cong [OF w nw] regions_of_cong [OF w] by simp
  moreover have "map (cleared_count img1 color_tolerance) (regions_of img1 corner_ratio) =
      map (cleared_count img color_tolerance) (regions_of img corner_ratio)"
    using cleared_count_cong [OF w nw] regions_of_cong [OF w] by simp
  ultimately have "report_for img1 corner_ratio color_tolerance =
      report_for img corner_ratio color_tolerance"
    using w by (simp add: report_for_def)
  then have "report_for img1 corner_ratio color_tolerance = rep1"
    using mask_passD(5) [OF assms] by simp
  moreover have "\<not> product_overflows (width img1) corner_ratio"
    using mask_passD(6) [OF assms] w by simp
  ultimately show ?thesis using mask_passI [OF nz refl refl fixed] by simp
qed

theorem mask_idempotent_witness:
  "\<exists>img1 rep1. mask_pass (white_icon 8 8) (1 / 4) 50 = Inr (img1, rep1) \<and>
     mask_pass img1 (1 / 4) 50 = Inr (img1, rep1)"
proof -
  obtain img1 rep1 where m: "mask_pass (white_icon 8 8) (1 / 4) 50 = Inr (img1, rep1)"
    using mask_pass_total [of "white_icon 8 8" "1 / 4" 50]
    by (auto simp: white_icon_def plain_icon_def small_product)
  from mask_idempotent [OF m] m show ?thesis by blast
qed

text \<open>
  Claim C7. For tolerances \<open>t1 \<le> t2\<close> and the same image and ratio, every pixel that the
  pass with \<open>t1\<close> makes transparent is made transparent by the pass with \<open>t2\<close>; the
  same holds for the pixels that are transparent afterwards and for the reported count.
\<close>

theorem tolerance_monotone:
  assumes "t1 \<le> t2"
    and "mask_pass img corner_ratio t1 = Inr (img1, rep1)"
    and "mask_pass img corner_ratio t2 = Inr (img2, rep2)"
  shows "made_transparent img img1 \<subseteq> made_transparent img img2 \<and>
     {p. alpha (pixels img1 p) = 0} \<subseteq> {p. alpha (pixels img2 p) = 0} \<and>
     transparent_pixels rep1 \<le> transparent_pixels rep2"
proof -
  note p1 = mask_passD(4) [OF assms(2)]
  note p2 = mask_passD(4) [OF assms(3)]
  have step: "alpha (pixels img2 p) = 0" if "alpha (pixels img1 p) = 0" for p
  proof (cases "tested img corner_ratio p \<and> near_white t1 (pixels img p)")
    case True
    then have "tested img corner_ratio p \<and> near_white t2 (pixels img p)"
      using near_white_mono [OF assms(1)] by blast
    then show ?thesis by (simp add: p2)
  next
    case False
    then have "pixels img1 p = pixels img p" by (auto simp: p1)
    with that have "alpha (pixels img p) = 0" by simp
    then show ?thesis by (simp add: p2)
  qed
  have "made_transparent img img1 \<subseteq> made_transparent img img2"
    using step by (auto simp: made_transparent_def)
  moreover have "{p. alpha (pixels img1 p) = 0} \<subseteq> {p. alpha (pixels img2 p) = 0}"
    using step by auto
  moreover have "transparent_pixels rep1 \<le> transparent_pixels rep2"
    unfolding mask_passD(5) [OF assms(2)] mask_passD(5) [OF assms(3)]
    by (simp add: report_for_def sum_list_mono cleared_count_mono [OF assms(1)])
  ultimately show ?thesis by blast
qed

theorem tolerance_monotone_witness:
  "\<exists>img1 rep1 img2 rep2.
     mask_pass (plain_icon 8 8 (230, 230, 230, 255)) (1 / 4) 0 = Inr (img1, rep1) \<and>
     mask_pass (plain_icon 8 8 (230, 230, 230, 255)) (1 / 4) 50 = Inr (img2, rep2) \<and>
     made_transparent (plain_icon 8 8 (230, 230, 230, 255)) img1
       \<subseteq> made_transparent (plain_icon 8 8 (230, 230, 230, 255)) img2 \<and>
     transparent_pixels rep1 \<le> transparent_pixels rep2"
proof -
  let ?img = "plain_icon 8 8 (230, 230, 230, 255)"
  have nz: "width ?img * height ?img \<noteq> 0" by (simp add: plain_icon_def)
  have no: "\<not> product_overflows (width ?img) (1 / 4)"
    by (simp add: plain_icon_def small_product)
  obtain img1 rep1 where m1: "mask_pass ?img (1 / 4) 0 = Inr (img1, rep1)"
    using mask_pass_total [OF nz no] by blast
  obtain img2 rep2 where m2: "mask_pass ?img (1 / 4) 50 = Inr (img2, rep2)"
    using mask_pass_total [OF nz no] by blast
  have le: "(0::int) \<le> 50" by simp
  from tolerance_monotone [OF le m1 m2] m1 m2 show ?thesis by blast
qed

section \<open>The boundary of a region\<close>

text \<open>
  Claim C2 as stated fails. On a white opaque 8 by 8 image with ratio 0.25 and tolerance
  50, the top-left region has centre \<open>(1, 1)\<close> and radius 1. The pixel \<open>(2, 1)\<close> lies inside
  the image at distance exactly 1 from that centre and passes the distance test, but the
  loops of lines 71 and 72 stop before \<open>x2 = center_x + radius\<close>: the pixel is not tested
  and stays opaque, while the pixel \<open>(0, 1)\<close> at the same distance is tested and cleared.
\<close>

theorem boundary_pixel_not_tested:
  "regions_of (white_icon 8 8) (1 / 4) ! 0 = (1, 1, 1, Top_Left) \<and>
   inside (white_icon 8 8) (2, 1) \<and> (2 - 1)\<^sup>2 + (1 - 1)\<^sup>2 = (1::int)\<^sup>2 \<and>
   within_radius 2 1 1 1 1 \<and>
   \<not> tested (white_icon 8 8) (1 / 4) (2, 1) \<and>
   pixel_of (mask_pass (white_icon 8 8) (1 / 4) 50) (2, 1) = Inr (255, 255, 255, 255) \<and>
   tested (white_icon 8 8) (1 / 4) (0, 1) \<and>
   pixel_of (mask_pass (white_icon 8 8) (1 / 4) 50) (0, 1) = Inr (255, 255, 255, 0)"
  by code_simp

text \<open>
  Claim C2, amended. For a region of the image and a pixel whose distance to the centre of
  the region is exactly the radius: the pixel is tested by the region exactly when it
  lies in the clipped bounding box \<open>[x1, x2) \<times> [y1, y2)\<close> of the region, and then the pass
  sets its alpha to 0 if it is classified as background and leaves it as it was
  otherwise. The two pixels \<open>(center_x + radius, center_y)\<close> and
  \<open>(center_x, center_y + radius)\<close> are never in the box.
\<close>

theorem boundary_inclusion_in_box:
  assumes "mask_pass img corner_ratio color_tolerance = Inr (img', rep)"
    and "(cx, cy, r, name) \<in> set (regions_of img corner_ratio)"
    and "sqrt (real_of_int ((x - cx)\<^sup>2 + (y - cy)\<^sup>2)) = real_of_int r"
  shows "((x, y) \<in> set (tested_pixels (width img) (height img) (cx, cy, r, name)) \<longleftrightarrow>
          (x, y) \<in> box_pixels (bounding_box (width img) (height img) (cx, cy, r, name))) \<and>
     ((x, y) \<in> box_pixels (bounding_box (width img) (height img) (cx, cy, r, name)) \<longrightarrow>
        pixels img' (x, y) =
          (if near_white color_tolerance (pixels img (x, y))
           then transparent (pixels img (x, y)) else pixels img (x, y))) \<and>
     (cx + r, cy) \<notin> box_pixels (bounding_box (width img) (height img) (cx, cy, r, name)) \<and>
     (cx, cy + r) \<notin> box_pixels (bounding_box (width img) (height img) (cx, cy, r, name))"
proof -
  let ?box = "box_pixels (bounding_box (width img) (height img) (cx, cy, r, name))"
  let ?ps = "set (tested_pixels (width img) (height img) (cx, cy, r, name))"
  have wr: "within_radius x y cx cy r"
    using assms(3) by (simp only: within_radius_sqrt)
  have iff: "(x, y) \<in> ?ps \<longleftrightarrow> (x, y) \<in> ?box"
    using wr by (simp add: tested_pixels_iff box_pixels_iff)
  have "pixels img' (x, y) =
          (if near_white color_tolerance (pixels img (x, y))
           then transparent (pixels img (x, y)) else pixels img (x, y))"
    if "(x, y) \<in> ?box"
  proof -
    from that iff assms(2) have "tested img corner_ratio (x, y)"
      unfolding tested_def list_ex_iff by blast
    then show ?thesis by (simp add: mask_passD(4) [OF assms(1)])
  qed
  moreover have "(cx + r, cy) \<notin> ?box" "(cx, cy + r) \<notin> ?box"
    by (simp_all add: box_pixels_iff)
  ultimately show ?thesis using iff by blast
qed

theorem boundary_inclusion_in_box_witness:
  "\<exists>img' rep. mask_pass (white_icon 8 8) (1 / 4) 50 = Inr (img', rep) \<and>
     (0, 1) \<in> set (tested_pixels 8 8 (1, 1, 1, Top_Left)) \<and>
     pixels img' (0, 1) = (255, 255, 255, 0)"
proof -
  obtain img' rep where m: "mask_pass (white_icon 8 8) (1 / 4) 50 = Inr (img', rep)"
    using mask_pass_total [of "white_icon 8 8" "1 / 4" 50]
    by (auto simp: white_icon_def plain_icon_def small_product)
  have reg: "(1, 1, 1, Top_Left) \<in> set (regions_of (white_icon 8 8) (1 / 4))"
    by code_simp
  have d: "sqrt (real_of_int ((0 - 1)\<^sup>2 + (1 - 1)\<^sup>2)) = real_of_int 1"
    by simp
  have box: "(0, 1) \<in> box_pixels (bounding_box 8 8 (1, 1, 1, Top_Left))"
    by (simp add: box_pixels_iff)
  have wh: "width (white_icon 8 8) = 8" "height (white_icon 8 8) = 8"
    "near_white 50 (pixels (white_icon 8 8) (0, 1))"
    "transparent (pixels (white_icon 8 8) (0, 1)) = (255, 255, 255, 0)"
    by (simp_all add: white_icon_def plain_icon_def near_white_def transparent_def)
  from boundary_inclusion_in_box [OF m reg d] box wh m show ?thesis
    by auto
qed

section \<open>The statistics\<close>

text \<open>
  Claim C8 as stated fails: on a white opaque 8 by 8 image with ratio 0.25, 12 pixels are
  tested and 12 are made transparent, yet the reported total percentage is 18.75, which
  is the share of all 64 pixels; and with ratio 0, where no region tests a pixel, no line is
  printed for any region (no percentage of 0 is reported).
\<close>

theorem report_statistics_counterexample:
  "report_of (mask_pass (white_icon 8 8) (1 / 4) 50) =
     Inr \<lparr>per_region = [(Top_Left, 3, 3, 100), (Top_Right, 3, 3, 100),
                         (Bottom_Left, 3, 3, 100), (Bottom_Right, 3, 3, 100)],
          total_pixels = 64, transparent_pixels = 12, transparency_percentage = 75 / 4\<rparr> \<and>
   (75 / 4 :: rat) \<noteq> 12 / (3 + 3 + 3 + 3) * 100 \<and>
   report_of (mask_pass (white_icon 8 8) 0 50) =
     Inr \<lparr>per_region = [], total_pixels = 64, transparent_pixels = 0,
          transparency_percentage = 0\<rparr>"
  by code_simp

text \<open>
  Claim C8, amended. After a pass that returns: a line is printed for exactly the regions
  that tested at least one pixel, with the number of pixels made transparent, the number
  of pixels tested and the percentage \<open>transparent / tested * 100\<close>; a region without
  tested pixels prints nothing and divides nothing; the totals are \<open>width * height\<close>, the
  number of pixels made transparent over all regions, and the percentage of the former
  that the latter is.
\<close>

theorem report_statistics:
  assumes "mask_pass img corner_ratio color_tolerance = Inr (img', rep)"
  shows "per_region rep =
       concat (map (region_line_of img color_tolerance) (regions_of img corner_ratio)) \<and>
     list_all (\<lambda>line. case line of (name, cleared, tested_count, pct) \<Rightarrow>
                 0 < tested_count \<and> pct = of_int cleared / of_int tested_count * 100) (per_region rep) \<and>
     total_pixels rep = width img * height img \<and> total_pixels rep \<noteq> 0 \<and>
     transparent_pixels rep =
       sum_list (map (cleared_count img color_tolerance) (regions_of img corner_ratio)) \<and>
     transparency_percentage rep =
       of_int (transparent_pixels rep) / of_int (total_pixels rep) * 100"
proof -
  note rep = mask_passD(5) [OF assms]
  have "list_all (\<lambda>line. case line of (name, cleared, tested_count, pct) \<Rightarrow>
                 0 < tested_count \<and> pct = of_int cleared / of_int tested_count * 100)
     (concat (map (region_line_of img color_tolerance) regs))" for regs
    by (induction regs) (auto simp: region_line_of_def Let_def)
  then show ?thesis
    using mask_passD(1) [OF assms] by (simp add: rep report_for_def)
qed

theorem report_statistics_witness:
  "\<exists>img' rep. mask_pass (white_icon 8 8) (1 / 4) 50 = Inr (img', rep) \<and>
     total_pixels rep = 64 \<and>
     transparency_percentage rep = of_int (transparent_pixels rep) / 64 * 100"
proof -
  obtain img' rep where m: "mask_pass (white_icon 8 8) (1 / 4) 50 = Inr (img', rep)"
    using mask_pass_total [of "white_icon 8 8" "1 / 4" 50]
    by (auto simp: white_icon_def plain_icon_def small_product)
  from report_statistics [OF m] m show ?thesis
    by (auto simp: white_icon_def plain_icon_def)
qed

section \<open>Configurations outside the documented domain\<close>

text \<open>
  Claim C1 as stated fails: the code validates nothing. On a white opaque 8 by 8 image,
  ratio 0.6 gives a normal result in which the pixel \<open>(1, 1)\<close> has been made transparent,
  and ratio 0 gives a normal result as well, not an exception.
\<close>

theorem no_validation_counterexample:
  "getpixel (white_icon 8 8) (1, 1) = Inr (255, 255, 255, 255) \<and>
   pixel_of (mask_pass (white_icon 8 8) (3 / 5) 50) (1, 1) = Inr (255, 255, 255, 0) \<and>
   pixel_of (mask_pass (white_icon 8 8) 0 50) (1, 1) = Inr (255, 255, 255, 255)"
  by code_simp

text \<open>
  Claim C1, amended. When the ratio is not positive, or the width or the height is not
  positive, or the derived radius is zero, the loops over the four regions end without
  an exception, test no pixel and leave the image as it was; nothing is counted and no
  line is printed for a region.
\<close>

theorem degenerate_configuration_unchanged:
  assumes "corner_ratio \<le> 0 \<or> width img \<le> 0 \<or> height img \<le> 0 \<or>
           corner_size (width img) corner_ratio div 2 = 0"
  shows "\<exists>s. process_corners img corner_ratio color_tolerance = Inr s \<and>
           new_img s = img \<and> transparent_count s = 0 \<and> region_lines s = []"
proof -
  define r where "r = corner_size (width img) corner_ratio div 2"
  have deg: "r \<le> 0 \<or> width img \<le> 0 \<or> height img \<le> 0"
  proof (cases "corner_ratio \<le> 0 \<and> 0 \<le> width img")
    case True
    then have "corner_size (width img) corner_ratio \<le> 0" by (simp add: corner_size_nonpos)
    then have "r \<le> 0" unfolding r_def by presburger
    then show ?thesis by simp
  next
    case False
    with assms show ?thesis by (auto simp: r_def)
  qed
  have empty: "tested_pixels (width img) (height img) reg = []"
    if "reg \<in> set (regions_of img corner_ratio)" for reg
    using degenerate_region_empty [OF deg _ r_def] that by (simp add: regions_of_def)
  have nt: "\<not> tested img corner_ratio p" for p
    using empty by (auto simp: tested_def list_ex_iff)
  have cc: "cleared_count img color_tolerance reg = 0"
    if "reg \<in> set (regions_of img corner_ratio)" for reg
    using empty [OF that] by (simp add: cleared_count_def)
  have rl: "region_line_of img color_tolerance reg = []"
    if "reg \<in> set (regions_of img corner_ratio)" for reg
    using empty [OF that] by (cases reg) (simp add: region_line_of_def)
  obtain s where run: "process_corners img corner_ratio color_tolerance = Inr s"
    and w: "width (new_img s) = width img" and h: "height (new_img s) = height img"
    and px: "\<And>p. pixels (new_img s) p =
        (if tested img corner_ratio p \<and> near_white color_tolerance (pixels img p)
         then transparent (pixels img p) else pixels img p)"
    and tc: "transparent_count s =
        sum_list (map (cleared_count img color_tolerance) (regions_of img corner_ratio))"
    and lines: "region_lines s =
        concat (map (region_line_of img color_tolerance) (regions_of img corner_ratio))"
    using process_corners_effect [of img corner_ratio color_tolerance] by blast
  have "new_img s = img"
    using w h by (rule image_eqI) (simp add: px nt)
  moreover have "transparent_count s = 0"
    unfolding tc using cc by (simp cong: map_cong)
  moreover have "region_lines s = []"
    unfolding lines using rl by simp
  ultimately show ?thesis using run by blast
qed

theorem degenerate_configuration_unchanged_witness:
  "\<exists>s. process_corners (white_icon 8 8) 0 50 = Inr s \<and>
           new_img s = white_icon 8 8 \<and> transparent_count s = 0 \<and> region_lines s = []"
  using degenerate_configuration_unchanged [of 0 "white_icon 8 8" 50] by simp

section \<open>The bounding boxes of the four regions\<close>

text \<open>
  Claim C9 as stated fails for an image that is wider than it is high: for width 16,
  height 4 and ratio 0.5 the radius is 4, the top-left and the bottom-left region have the
  same clipped bounding box, and the pixel \<open>(4, 0)\<close> is tested by both regions.
\<close>

theorem bounding_boxes_disjoint_counterexample:
  "corner_regions 16 4 (corner_size 16 (1 / 2)) =
     [(4, 4, 4, Top_Left), (12, 4, 4, Top_Right),
      (4, 0, 4, Bottom_Left), (12, 0, 4, Bottom_Right)] \<and>
   bounding_box 16 4 (4, 4, 4, Top_Left) = (0, 0, 8, 4) \<and>
   bounding_box 16 4 (4, 0, 4, Bottom_Left) = (0, 0, 8, 4) \<and>
   (4, 0) \<in> box_pixels (0, 0, 8, 4) \<and>
   (4, 0) \<in> set (tested_pixels 16 4 (4, 4, 4, Top_Left)) \<and>
   (4, 0) \<in> set (tested_pixels 16 4 (4, 0, 4, Bottom_Left))"
  by (simp add: corner_regions_def corner_size_values bounding_box_def box_pixels_def
      tested_pixels_iff within_radius_def)

text \<open>
  Claim C9, amended. For a ratio of at most 0.5 and an image whose height is at least its
  width (or at least four times the radius), the clipped bounding boxes of two different
  regions have no pixel in common.
\<close>

theorem bounding_boxes_disjoint:
  assumes "corner_ratio \<le> 1 / 2"
    and "w \<le> h \<or> 4 * (corner_size w corner_ratio div 2) \<le> h"
  shows "\<forall>a \<in> set (corner_regions w h (corner_size w corner_ratio)).
         \<forall>b \<in> set (corner_regions w h (corner_size w corner_ratio)).
           a \<noteq> b \<longrightarrow>
           box_pixels (bounding_box w h a) \<inter> box_pixels (bounding_box w h b) = {}"
proof -
  define r where "r = corner_size w corner_ratio div 2"
  have fw: "r \<le> 0 \<or> w \<le> 0 \<or> 4 * r \<le> w"
    using radius_quarter [OF assms(1), of w] unfolding r_def by linarith
  have fh: "r \<le> 0 \<or> w \<le> 0 \<or> 4 * r \<le> h"
    using fw assms(2) unfolding r_def by linarith
  note lr = left_right_disjoint [OF fw]
  note tb = top_bottom_disjoint [OF fh]
  have rl: "box_pixels (bounding_box w h (w - r, cy', r, n')) \<inter>
         box_pixels (bounding_box w h (r, cy, r, n)) = {}" for cy cy' n n'
    by (subst Int_commute) (rule lr)
  have bt: "box_pixels (bounding_box w h (cx', h - r, r, n')) \<inter>
         box_pixels (bounding_box w h (cx, r, r, n)) = {}" for cx cx' n n'
    by (subst Int_commute) (rule tb)
  show ?thesis
    unfolding corner_regions_def r_def [symmetric]
    by (simp add: lr rl tb bt)
qed

theorem bounding_boxes_disjoint_witness:
  "box_pixels (bounding_box 8 8 (1, 1, 1, Top_Left)) \<inter>
   box_pixels (bounding_box 8 8 (1, 7, 1, Bottom_Left)) = {}"
  using bounding_boxes_disjoint [of "1 / 4" 8 8]
  by (simp add: corner_regions_def corner_size_values)

section \<open>Exceptions and the caller\<close>

text \<open>
  Claim C10 as stated fails: the handler prints its message outside any \<^verbatim>\<open>try\<close>
  statement. On a console that cannot encode the messages and with an input file that is
  missing, \<^verbatim>\<open>Image.open\<close> raises, the handler catches that exception, and the
  \<^verbatim>\<open>print\<close> of line 109 raises \<^verbatim>\<open>UnicodeEncodeError\<close>, which reaches the caller.
\<close>

theorem never_propagates_counterexample:
  "make_icon_transparent False no_files every_path_writable ''ic_launcher.png''
     ''ic_launcher_transparent.png'' (1 / 4) 50 = Inl UnicodeEncodeError"
  by (simp add: make_icon_transparent_def make_icon_transparent_body_def no_files_def)

text \<open>
  Claim C10, amended. Whatever the files, the paths, the ratio and the tolerance: on a
  console that can encode the messages the function returns normally, and when its body
  raises an exception the files are as before and the message of the handler is printed;
  on a console that cannot encode them the function raises \<^verbatim>\<open>UnicodeEncodeError\<close>.
  The three instances are a missing input file, an image without pixels, for which line 95
  divides by zero, and a white image on a console that cannot encode the messages.
\<close>

theorem handler_catches_body:
  "(encodable \<longrightarrow>
      (\<exists>fs' msg.
         make_icon_transparent encodable fs writable input_path output_path corner_ratio
           color_tolerance = Inr (fs', msg) \<and>
         (\<forall>e. make_icon_transparent_body encodable fs writable input_path output_path
                corner_ratio color_tolerance = Inl e \<longrightarrow>
              fs' = fs \<and> msg = Error_Message e))) \<and>
   (\<not> encodable \<longrightarrow>
      make_icon_transparent encodable fs writable input_path output_path corner_ratio
        color_tolerance = Inl UnicodeEncodeError)"
proof (cases encodable)
  case True
  then show ?thesis
    by (cases "make_icon_transparent_body encodable fs writable input_path output_path
          corner_ratio color_tolerance")
       (auto simp: make_icon_transparent_def)
next
  case False
  then have "\<exists>e. make_icon_transparent_body encodable fs writable input_path output_path
      corner_ratio color_tolerance = Inl e"
    by (auto simp: make_icon_transparent_body_def split: option.splits)
  with False show ?thesis
    by (auto simp: make_icon_transparent_def)
qed

theorem handler_catches_body_witness:
  "make_icon_transparent True no_files every_path_writable ''ic_launcher.png''
     ''ic_launcher_transparent.png'' (1 / 4) 50 = Inr (no_files, Error_Message OpenError) \<and>
   make_icon_transparent True [''ic_launcher.png'' \<mapsto> (True, white_icon 0 0)]
     every_path_writable ''ic_launcher.png'' ''ic_launcher_transparent.png'' (1 / 4) 50 =
     Inr ([''ic_launcher.png'' \<mapsto> (True, white_icon 0 0)], Error_Message ZeroDivisionError) \<and>
   make_icon_transparent False [''ic_launcher.png'' \<mapsto> (True, white_icon 8 8)]
     every_path_writable ''ic_launcher.png'' ''ic_launcher_transparent.png'' (1 / 4) 50 =
     Inl UnicodeEncodeError"
proof -
  have b1: "make_icon_transparent_body True no_files every_path_writable ''ic_launcher.png''
     ''ic_launcher_transparent.png'' (1 / 4) 50 = Inl OpenError"
    by (simp add: make_icon_transparent_body_def no_files_def)
  have no: "\<not> product_overflows (width (white_icon 0 0)) (1 / 4)"
    by (simp add: white_icon_def plain_icon_def small_product)
  have m: "mask_pass (white_icon 0 0) (1 / 4) 50 = Inl ZeroDivisionError"
    using process_corners_effect [of "white_icon 0 0" "1 / 4" 50] no
    by (auto simp: mask_pass_def white_icon_def plain_icon_def)
  have b2: "make_icon_transparent_body True [''ic_launcher.png'' \<mapsto> (True, white_icon 0 0)]
     every_path_writable ''ic_launcher.png'' ''ic_launcher_transparent.png'' (1 / 4) 50 =
     Inl ZeroDivisionError"
    using no by (simp add: make_icon_transparent_body_def m)
  from handler_catches_body [of True no_files every_path_writable "''ic_launcher.png''"
      "''ic_launcher_transparent.png''" "1 / 4" 50] b1
    handler_catches_body [of True "[''ic_launcher.png'' \<mapsto> (True, white_icon 0 0)]"
      every_path_writable "''ic_launcher.png''" "''ic_launcher_transparent.png''" "1 / 4" 50] b2
    handler_catches_body [of False "[''ic_launcher.png'' \<mapsto> (True, white_icon 8 8)]"
      every_path_writable "''ic_launcher.png''" "''ic_launcher_transparent.png''" "1 / 4" 50]
  show ?thesis by auto
qed

end
